theory Spec2Isabelle
  imports Main "HOL-Library.Sublist"
begin

section \<open>Python strings\<close>

text \<open>
  A Python \<^verbatim>\<open>str\<close> is modelled as a \<^typ>\<open>string\<close>: each \<^typ>\<open>char\<close> stands for the
  code point with the same number, so the model covers the texts whose code points are
  below 256. \<^verbatim>\<open>str.strip()\<close> without argument and the class \<^verbatim>\<open>\s\<close> of a \<^verbatim>\<open>str\<close>
  pattern use the same test for whitespace; below 256 it holds for the twelve code
  points listed here (tab, line feed, vertical tab, form feed, carriage return, the four
  separators 0x1C to 0x1F, space, next line 0x85 and no-break space 0xA0).
\<close>

definition isspace :: "char \<Rightarrow> bool" where
  "isspace c \<longleftrightarrow>
     c \<in> set [CHR 0x09, CHR 0x0A, CHR 0x0B, CHR 0x0C, CHR 0x0D,
                CHR 0x1C, CHR 0x1D, CHR 0x1E, CHR 0x1F, CHR 0x20, CHR 0x85, CHR 0xA0]"

definition lstrip :: "string \<Rightarrow> string" where
  "lstrip s = dropWhile isspace s"

definition rstrip :: "string \<Rightarrow> string" where
  "rstrip s = rev (dropWhile isspace (rev s))"

text \<open>\<^verbatim>\<open>s.strip()\<close>: the text without its leading and trailing whitespace.\<close>

definition strip :: "string \<Rightarrow> string" where
  "strip s = rstrip (lstrip s)"

section \<open>The two substitutions of \<^verbatim>\<open>structured_json_response\<close>\<close>

text \<open>
  \<^verbatim>\<open>re.sub(r"^```(?:json)?\s*", "", clean)\<close>. No flag is given, so \<^verbatim>\<open>^\<close> matches at
  position 0 only and the tag is compared case-sensitively. The pattern matches at most
  once: three backticks at the start, then the four letters \<^verbatim>\<open>json\<close> when they follow
  (the optional group is greedy and nothing after it can fail), then the longest run of
  whitespace. The match is replaced by the empty text.
\<close>

definition sub_leading_fence :: "string \<Rightarrow> string" where
  "sub_leading_fence s =
     (if prefix ''```'' s
      then (let r = drop 3 s
            in dropWhile isspace (if prefix ''json'' r then drop 4 r else r))
      else s)"

text \<open>
  \<^verbatim>\<open>re.sub(r"\s*```$", "", clean)\<close>. Without the multi-line flag \<^verbatim>\<open>$\<close> matches at the
  end of the text and also just before a line feed that is the last character. A match
  is a run of whitespace, three backticks, and one of these two positions; the search
  goes from left to right, so the match starts where the whitespace before the last
  three backticks starts. There is at most one match; it is replaced by the empty text
  and a final line feed after it is kept.
\<close>

definition sub_trailing_fence :: "string \<Rightarrow> string" where
  "sub_trailing_fence s =
     (if s \<noteq> [] \<and> last s = CHR 0x0A \<and> suffix ''```'' (butlast s)
      then rstrip (take (length s - 4) s) @ [CHR 0x0A]
      else if suffix ''```'' s
      then rstrip (take (length s - 3) s)
      else s)"

text \<open>Lines 101 to 105: trim, remove the leading marker, remove the trailing marker.\<close>

definition strip_fences :: "string \<Rightarrow> string" where
  "strip_fences result =
     (let clean = strip result;
          clean = sub_leading_fence clean;
          clean = sub_trailing_fence clean
      in clean)"

section \<open>Exceptions, values and the outside world\<close>

text \<open>
  The exceptions the program meets. \<open>SDKError\<close> stands for whatever the vendor's
  client raises (network, authentication, quota), with its message. Besides
  \<^verbatim>\<open>JSONDecodeError\<close>, a decoder can raise \<^verbatim>\<open>RecursionError\<close> (brackets nested too deep) and
  \<^verbatim>\<open>ValueError\<close> (an integer with more digits than the interpreter converts).
\<close>

datatype pyexn =
    JSONDecodeError
  | ValueError string
  | KeyError string
  | TypeError
  | AttributeError
  | IndexError
  | RecursionError
  | SDKError string

text \<open>
  The values \<^verbatim>\<open>json.loads\<close> builds. The type \<open>'f\<close> of floating-point numbers is left
  open; a dictionary is the list of its items in insertion order.
\<close>

datatype 'f pyval =
    PyNone
  | PyBool bool
  | PyInt int
  | PyFloat 'f
  | PyStr string
  | PyList "'f pyval list"
  | PyDict "(string \<times> 'f pyval) list"

text \<open>
  The three calls of \<^verbatim>\<open>logging.error\<close>, each with the value it formats into its message.
\<close>

datatype log_entry =
    GoogleGenAIError pyexn
  | OpenAIError pyexn
  | JSONParseError string

text \<open>
  What the program does to its surroundings: \<open>attempts\<close> holds the prompts handed to the
  vendor's client, one entry per call, and \<open>logged\<close> the error log.
\<close>

record world =
  attempts :: "string list"
  logged :: "log_entry list"

text \<open>
  The configured provider and its client. The client is an oracle: from the prompts
  handed over so far (the last one is the current request) it either raises or answers.
  The answer of \<^verbatim>\<open>generate_content\<close> carries a text or none (\<^verbatim>\<open>resp.text\<close> is optional);
  the answer of \<^verbatim>\<open>chat.completions.create\<close> carries a list of choices, each with a
  content or none. The model name is fixed at start-up and is part of the oracle.
\<close>

datatype client =
    Google "string list \<Rightarrow> pyexn + string option"
  | OpenAI "string list \<Rightarrow> pyexn + string option list"

section \<open>\<^verbatim>\<open>generate_response\<close>\<close>

text \<open>
  Both branches have the same shape: one call of the client inside \<^verbatim>\<open>try\<close>; whatever is
  raised there, by the client or by reading the text of an answer that has none, is
  logged and raised again by the bare \<^verbatim>\<open>raise\<close>.
\<close>

definition generate_response :: "client \<Rightarrow> string \<Rightarrow> world \<Rightarrow> (pyexn + string) \<times> world" where
  "generate_response cl prompt w =
     (let w1 = w\<lparr>attempts := attempts w @ [prompt]\<rparr>
      in case cl of
           Google generate_content \<Rightarrow>
             (case generate_content (attempts w1) of
                Inl e \<Rightarrow> (Inl e, w1\<lparr>logged := logged w1 @ [GoogleGenAIError e]\<rparr>)
              | Inr None \<Rightarrow>
                  (Inl AttributeError, w1\<lparr>logged := logged w1 @ [GoogleGenAIError AttributeError]\<rparr>)
              | Inr (Some text) \<Rightarrow> (Inr (strip text), w1))
         | OpenAI create \<Rightarrow>
             (case create (attempts w1) of
                Inl e \<Rightarrow> (Inl e, w1\<lparr>logged := logged w1 @ [OpenAIError e]\<rparr>)
              | Inr [] \<Rightarrow>
                  (Inl IndexError, w1\<lparr>logged := logged w1 @ [OpenAIError IndexError]\<rparr>)
              | Inr (None # _) \<Rightarrow>
                  (Inl AttributeError, w1\<lparr>logged := logged w1 @ [OpenAIError AttributeError]\<rparr>)
              | Inr (Some content # _) \<Rightarrow> (Inr (strip content), w1)))"

section \<open>\<^verbatim>\<open>few_shot_prompt\<close>\<close>

text \<open>
  The loop over the examples. An example is a dictionary; reading a key it does not
  have raises \<^verbatim>\<open>KeyError\<close>, the question being read first.
\<close>

fun few_shot_loop :: "string \<Rightarrow> (string \<rightharpoonup> string) list \<Rightarrow> pyexn + string" where
  "few_shot_loop prompt [] = Inr prompt"
| "few_shot_loop prompt (ex # examples) =
     (case ex ''question'' of
        None \<Rightarrow> Inl (KeyError ''question'')
      | Some q \<Rightarrow>
          (case ex ''answer'' of
             None \<Rightarrow> Inl (KeyError ''answer'')
           | Some a \<Rightarrow>
               few_shot_loop (prompt @ ''Q: '' @ q @ ''\<newline>A: '' @ a @ ''\<newline>'') examples))"

definition few_shot_prompt ::
  "client \<Rightarrow> string \<Rightarrow> (string \<rightharpoonup> string) list \<Rightarrow> world \<Rightarrow> (pyexn + string) \<times> world" where
  "few_shot_prompt cl query examples w =
     (case few_shot_loop '''' examples of
        Inl e \<Rightarrow> (Inl e, w)
      | Inr prompt \<Rightarrow> generate_response cl (prompt @ ''Q: '' @ query @ ''\<newline>A:'') w)"

section \<open>\<^verbatim>\<open>structured_json_response\<close>\<close>

text \<open>
  Lines 106 to 110, with \<^verbatim>\<open>json.loads\<close> as the parameter \<open>loads\<close>: a decoder either
  returns a value or raises. Only \<^verbatim>\<open>JSONDecodeError\<close> is caught; it is logged with the
  cleaned text and reported as a dictionary that holds \<open>result\<close>. Any other exception
  of the decoder leaves the function.
\<close>

definition parse_or_report ::
  "(string \<Rightarrow> pyexn + 'f pyval) \<Rightarrow> string \<Rightarrow> string \<Rightarrow> world \<Rightarrow> (pyexn + 'f pyval) \<times> world" where
  "parse_or_report loads result clean w =
     (case loads clean of
        Inr v \<Rightarrow> (Inr v, w)
      | Inl JSONDecodeError \<Rightarrow>
          (Inr (PyDict [(''error'', PyStr ''Failed to parse JSON''), (''raw_response'', PyStr result)]),
           w\<lparr>logged := logged w @ [JSONParseError clean]\<rparr>)
      | Inl e \<Rightarrow> (Inl e, w))"

text \<open>Lines 100 to 110: what the function does with the text \<open>result\<close> it got.\<close>

definition response_normalizer ::
  "(string \<Rightarrow> pyexn + 'f pyval) \<Rightarrow> string \<Rightarrow> world \<Rightarrow> (pyexn + 'f pyval) \<times> world" where
  "response_normalizer loads result w = parse_or_report loads result (strip_fences result) w"

definition structured_json_response ::
  "client \<Rightarrow> (string \<Rightarrow> pyexn + 'f pyval) \<Rightarrow> string \<Rightarrow> world \<Rightarrow> (pyexn + 'f pyval) \<times> world" where
  \<open>structured_json_response cl loads query w =
     (let prompt = ''Answer the following question in JSON format '' @
                   '''{"answer": "Your answer here"}'. '' @
                   ''Question: '' @ query
      in case generate_response cl prompt w of
           (Inl e, w1) \<Rightarrow> (Inl e, w1)
         | (Inr result, w1) \<Rightarrow> response_normalizer loads result w1)\<close>

section \<open>\<^verbatim>\<open>retrieval_augmented_generation\<close>\<close>

definition retrieval_augmented_generation ::
  "client \<Rightarrow> string \<Rightarrow> string \<Rightarrow> world \<Rightarrow> (pyexn + string) \<times> world" where
  "retrieval_augmented_generation cl context question w =
     (let prompt = ''Context: '' @ context @ ''\<newline>Question: '' @ question @ ''\<newline>Answer:''
      in generate_response cl prompt w)"

section \<open>\<^verbatim>\<open>Calculator\<close> and \<^verbatim>\<open>function_call\<close>\<close>

text \<open>
  The operands are of any type with the two operations; Python applies the addition and
  multiplication of the operands' own type.
\<close>

definition Calculator_add :: "'a::plus \<Rightarrow> 'a \<Rightarrow> 'a" where
  "Calculator_add a b = a + b"

definition Calculator_multiply :: "'a::times \<Rightarrow> 'a \<Rightarrow> 'a" where
  "Calculator_multiply a b = a * b"

definition functions_dict :: "string \<rightharpoonup> ('a::{plus,times} \<Rightarrow> 'a \<Rightarrow> 'a)" where
  "functions_dict = [''add'' \<mapsto> Calculator_add, ''multiply'' \<mapsto> Calculator_multiply]"

text \<open>
  \<^verbatim>\<open>functions[function_name](*args)\<close>: both entries take two positional arguments, and a
  call with another number of arguments raises \<^verbatim>\<open>TypeError\<close>.
\<close>

definition function_call :: "string \<Rightarrow> 'a::{plus,times} list \<Rightarrow> pyexn + 'a" where
  "function_call function_name args =
     (case functions_dict function_name of
        None \<Rightarrow> Inl (ValueError (''Function '' @ [CHR 0x27] @ function_name @ [CHR 0x27] @ '' not supported.''))
      | Some f \<Rightarrow> (case args of [a, b] \<Rightarrow> Inr (f a b) | _ \<Rightarrow> Inl TypeError))"

section \<open>The casings of the tag\<close>

text \<open>
  The sixteen ways of writing the tag \<^verbatim>\<open>json\<close> in upper and lower case, for the statement
  about tags that differ from the lowercase one in case only.
\<close>

definition json_casings :: "string list" where
  "json_casings = [[a, b, c, d]. a \<leftarrow> ''jJ'', b \<leftarrow> ''sS'', c \<leftarrow> ''oO'', d \<leftarrow> ''nN'']"

section \<open>Trimming\<close>

lemma lstrip_hd: "lstrip s = [] \<or> \<not> isspace (hd (lstrip s))"
  unfolding lstrip_def using hd_dropWhile[of isspace s] by blast

lemma rstrip_last: "rstrip s = [] \<or> \<not> isspace (last (rstrip s))"
proof (cases "dropWhile isspace (rev s) = []")
  case True
  then show ?thesis by (simp add: rstrip_def)
next
  case False
  then have "\<not> isspace (hd (dropWhile isspace (rev s)))" by (rule hd_dropWhile)
  with False show ?thesis by (simp add: rstrip_def last_rev)
qed

lemma rstrip_hd:
  assumes "s \<noteq> []" and "\<not> isspace (hd s)"
  shows "rstrip s \<noteq> [] \<and> hd (rstrip s) = hd s"
proof -
  from assms obtain c r where s: "s = c # r" by (cases s) auto
  with assms have c: "\<not> isspace c" by simp
  have "dropWhile isspace (rev r @ [c]) = dropWhile isspace (rev r) @ [c]"
    using c by (simp add: dropWhile_append3)
  then show ?thesis using s c by (simp add: rstrip_def)
qed

lemma strip_ends:
  "strip s = [] \<or> (\<not> isspace (hd (strip s)) \<and> \<not> isspace (last (strip s)))"
proof (cases "lstrip s = []")
  case True
  then show ?thesis by (simp add: strip_def rstrip_def)
next
  case False
  then have h: "\<not> isspace (hd (lstrip s))" using lstrip_hd[of s] by simp
  from rstrip_hd[OF False h] rstrip_last[of "lstrip s"] h show ?thesis
    by (simp add: strip_def)
qed

lemma rstrip_id: "s = [] \<or> \<not> isspace (last s) \<Longrightarrow> rstrip s = s"
  by (cases "rev s") (auto simp: rstrip_def last_rev[symmetric] simp del: last_rev)

lemma lstrip_id: "s = [] \<or> \<not> isspace (hd s) \<Longrightarrow> lstrip s = s"
  by (cases s) (auto simp: lstrip_def)

lemma strip_id: "s = [] \<or> (\<not> isspace (hd s) \<and> \<not> isspace (last s)) \<Longrightarrow> strip s = s"
  by (auto simp: strip_def lstrip_id rstrip_id)

lemma strip_strip: "strip (strip s) = strip s"
  using strip_ends[of s] by (intro strip_id) auto

lemma strip_eq_iff: "strip s = s \<longleftrightarrow> s = [] \<or> (\<not> isspace (hd s) \<and> \<not> isspace (last s))"
  using strip_ends[of s] strip_id[of s] by metis

section \<open>The dispatch table\<close>

text \<open>
  C3. With two operands \<open>a\<close> and \<open>b\<close>, \<^verbatim>\<open>function_call\<close> returns \<open>a + b\<close> for the name
  \<^verbatim>\<open>add\<close> and \<open>a * b\<close> for the name \<^verbatim>\<open>multiply\<close>, in the arithmetic of the operands' type;
  on 5 and 3 that is 8 and 15. For the name \<^verbatim>\<open>divide\<close> it raises. It raises the error of an
  unknown operation (the \<^verbatim>\<open>ValueError\<close> of line 145, which names the function) exactly
  when the name is neither \<^verbatim>\<open>add\<close> nor \<^verbatim>\<open>multiply\<close>, whatever the operands; and with two
  operands it raises nothing else.
\<close>

theorem function_call_dispatch:
  \<open>function_call ''add'' [a, b] = Inr (a + b)
   \<and> function_call ''multiply'' [a, b] = Inr (a * b)
   \<and> function_call ''add'' [5 :: int, 3] = Inr 8
   \<and> function_call ''multiply'' [5 :: int, 3] = Inr 15
   \<and> function_call ''divide'' [5 :: int, 3] = Inl (ValueError ''Function 'divide' not supported.'')
   \<and> (function_call name args =
          Inl (ValueError (''Function '' @ [CHR 0x27] @ name @ [CHR 0x27] @ '' not supported.''))
        \<longleftrightarrow> name \<notin> {''add'', ''multiply''})
   \<and> ((\<exists>msg. function_call name args = Inl (ValueError msg)) \<longleftrightarrow> name \<notin> {''add'', ''multiply''})
   \<and> ((\<exists>e. function_call name [a, b] = Inl e) \<longleftrightarrow> name \<notin> {''add'', ''multiply''})\<close>
proof -
  have 1: "function_call ''add'' [x, y] = Inr (x + y)" for x y :: "'c::{plus,times}"
    by (simp add: function_call_def functions_dict_def Calculator_add_def)
  have 2: "function_call ''multiply'' [x, y] = Inr (x * y)" for x y :: "'c::{plus,times}"
    by (simp add: function_call_def functions_dict_def Calculator_multiply_def)
  have 3: \<open>function_call ''divide'' [5 :: int, 3] = Inl (ValueError ''Function 'divide' not supported.'')\<close>
    by (simp add: function_call_def functions_dict_def)
  have 4: "(function_call name xs =
          Inl (ValueError (''Function '' @ [CHR 0x27] @ name @ [CHR 0x27] @ '' not supported.'')))
        = (name \<notin> {''add'', ''multiply''})" for xs :: "'c::{plus,times} list"
    by (auto simp: function_call_def functions_dict_def split: list.splits)
  have 5: "(\<exists>msg. function_call name xs = Inl (ValueError msg)) = (name \<notin> {''add'', ''multiply''})"
    for xs :: "'c::{plus,times} list"
    by (auto simp: function_call_def functions_dict_def split: list.splits)
  have 6: "(\<exists>e. function_call name [x, y] = Inl e) = (name \<notin> {''add'', ''multiply''})"
    for x y :: "'c::{plus,times}"
    by (auto simp: function_call_def functions_dict_def)
  show ?thesis
    using 1[of a b] 2[of a b] 1[of "5::int" 3] 2[of "5::int" 3] 3 4[of args] 5[of args] 6[of a b]
    by simp
qed

section \<open>The provider call\<close>

lemma attempts_generate_response:
  "attempts (snd (generate_response cl prompt w)) = attempts w @ [prompt]"
  by (simp add: generate_response_def Let_def split: client.splits sum.splits option.splits list.splits)

text \<open>
  C9. Every call of \<^verbatim>\<open>generate_response\<close> hands the prompt to the client exactly once: the
  list of attempts grows by this one prompt, whatever the client does. When the client
  raises \<open>e\<close>, the call raises this same \<open>e\<close>: nothing is tried again, no other error and
  no value takes its place. The only other effect is the entry in the error log.
\<close>

theorem generate_single_attempt:
  "attempts (snd (generate_response cl prompt w)) = attempts w @ [prompt]
   \<and> (generate_content (attempts w @ [prompt]) = Inl e \<longrightarrow>
        generate_response (Google generate_content) prompt w =
          (Inl e, w\<lparr>attempts := attempts w @ [prompt], logged := logged w @ [GoogleGenAIError e]\<rparr>))
   \<and> (create (attempts w @ [prompt]) = Inl e \<longrightarrow>
        generate_response (OpenAI create) prompt w =
          (Inl e, w\<lparr>attempts := attempts w @ [prompt], logged := logged w @ [OpenAIError e]\<rparr>))"
  by (simp add: generate_response_def attempts_generate_response[unfolded generate_response_def])

theorem generate_single_attempt_witness:
  "attempts (snd (generate_response (Google (\<lambda>h. Inl (SDKError ''quota''))) ''hi'' \<lparr>attempts = [''old''], logged = []\<rparr>))
     = [''old'', ''hi'']
   \<and> generate_response (Google (\<lambda>h. Inl (SDKError ''quota''))) ''hi'' \<lparr>attempts = [''old''], logged = []\<rparr>
       = (Inl (SDKError ''quota''), \<lparr>attempts = [''old'', ''hi''], logged = [GoogleGenAIError (SDKError ''quota'')]\<rparr>)
   \<and> generate_response (OpenAI (\<lambda>h. Inl (SDKError ''quota''))) ''hi'' \<lparr>attempts = [''old''], logged = []\<rparr>
       = (Inl (SDKError ''quota''), \<lparr>attempts = [''old'', ''hi''], logged = [OpenAIError (SDKError ''quota'')]\<rparr>)"
  using generate_single_attempt[of "Google (\<lambda>h. Inl (SDKError ''quota''))" "''hi''"
      "\<lparr>attempts = [''old''], logged = []\<rparr>" "\<lambda>h. Inl (SDKError ''quota'')" "SDKError ''quota''"
      "\<lambda>h. Inl (SDKError ''quota'')"]
  by simp

text \<open>
  C10. When the client answers with a text \<open>t\<close>, \<^verbatim>\<open>generate_response\<close> returns \<open>strip t\<close>, for
  both providers. So a text it returns is empty or has no whitespace at either end. When
  \<^verbatim>\<open>structured_json_response\<close> then fails to decode, the \<^verbatim>\<open>raw_response\<close> it reports is this
  trimmed text \<open>r\<close>, not the text the provider sent.
\<close>

theorem generate_returns_stripped:
  \<open>(generate_content (attempts w @ [prompt]) = Inr (Some t) \<longrightarrow>
      generate_response (Google generate_content) prompt w =
        (Inr (strip t), w\<lparr>attempts := attempts w @ [prompt]\<rparr>))
   \<and> (create (attempts w @ [prompt]) = Inr (Some t # rest) \<longrightarrow>
      generate_response (OpenAI create) prompt w =
        (Inr (strip t), w\<lparr>attempts := attempts w @ [prompt]\<rparr>))
   \<and> (fst (generate_response cl prompt w) = Inr r \<longrightarrow>
        r = [] \<or> (\<not> isspace (hd r) \<and> \<not> isspace (last r)))
   \<and> (fst (generate_response cl
              (''Answer the following question in JSON format '' @
               '''{"answer": "Your answer here"}'. '' @ ''Question: '' @ query) w) = Inr r
       \<and> loads (strip_fences r) = Inl JSONDecodeError \<longrightarrow>
        strip r = r \<and>
        fst (structured_json_response cl loads query w) =
          Inr (PyDict [(''error'', PyStr ''Failed to parse JSON''), (''raw_response'', PyStr r)]))\<close>
proof -
  have 3: "r = [] \<or> (\<not> isspace (hd r) \<and> \<not> isspace (last r))"
    if "fst (generate_response cl p w) = Inr r" for p r
    using that strip_ends
    by (auto simp: generate_response_def Let_def split: client.splits sum.splits option.splits list.splits)
  have 4: "fst (structured_json_response cl loads query w) =
          Inr (PyDict [(''error'', PyStr ''Failed to parse JSON''), (''raw_response'', PyStr r)])"
    if \<open>fst (generate_response cl
              (''Answer the following question in JSON format '' @
               '''{"answer": "Your answer here"}'. '' @ ''Question: '' @ query) w) = Inr r\<close>
       "loads (strip_fences r) = Inl JSONDecodeError"
    using that
    by (cases \<open>generate_response cl
              (''Answer the following question in JSON format '' @
               '''{"answer": "Your answer here"}'. '' @ ''Question: '' @ query) w\<close>)
       (simp add: structured_json_response_def response_normalizer_def parse_or_report_def)
  show ?thesis
    using 3 4 strip_id
    by (auto simp: generate_response_def)
qed

theorem generate_returns_stripped_witness:
  \<open>generate_response (Google (\<lambda>h. Inr (Some ''  not json ''))) ''p'' \<lparr>attempts = [], logged = []\<rparr>
     = (Inr ''not json'', \<lparr>attempts = [''p''], logged = []\<rparr>)
   \<and> generate_response (OpenAI (\<lambda>h. Inr [Some ''  not json '', None])) ''p'' \<lparr>attempts = [], logged = []\<rparr>
     = (Inr ''not json'', \<lparr>attempts = [''p''], logged = []\<rparr>)
   \<and> fst (structured_json_response (Google (\<lambda>h. Inr (Some ''  not json '')))
          (\<lambda>s. Inl JSONDecodeError :: pyexn + unit pyval) ''q'' \<lparr>attempts = [], logged = []\<rparr>)
     = Inr (PyDict [(''error'', PyStr ''Failed to parse JSON''), (''raw_response'', PyStr ''not json'')])\<close>
proof -
  have s: "strip ''  not json '' = ''not json''"
    by (simp add: strip_def lstrip_def rstrip_def isspace_def)
  have g: \<open>fst (generate_response (Google (\<lambda>h. Inr (Some ''  not json ''))) p \<lparr>attempts = [], logged = []\<rparr>)
      = Inr ''not json''\<close> for p
    by (simp add: generate_response_def s)
  show ?thesis
    using generate_returns_stripped[where generate_content = "\<lambda>h. Inr (Some ''  not json '')"
        and create = "\<lambda>h. Inr [Some ''  not json '', None]" and t = "''  not json ''" and rest = "[None]"
        and w = "\<lparr>attempts = [], logged = []\<rparr>" and prompt = "''p''"
        and cl = "Google (\<lambda>h. Inr (Some ''  not json ''))" and r = "''not json''" and query = "''q''"
        and loads = "\<lambda>s. Inl JSONDecodeError :: pyexn + unit pyval"]
    by (simp add: s g)
qed

section \<open>The prompts\<close>

lemma few_shot_loop_all:
  "\<forall>ex \<in> set examples. ex ''question'' \<noteq> None \<and> ex ''answer'' \<noteq> None \<Longrightarrow>
   few_shot_loop prompt examples =
     Inr (prompt @ concat (map (\<lambda>ex. ''Q: '' @ the (ex ''question'') @ ''\<newline>A: '' @ the (ex ''answer'') @ ''\<newline>'') examples))"
  by (induction examples arbitrary: prompt) auto

text \<open>
  C6. \<^verbatim>\<open>few_shot_prompt\<close> sends, for the query \<^verbatim>\<open>X?\<close> and no example, the prompt
  \<^verbatim>\<open>Q: X?\nA:\<close>; for the query \<^verbatim>\<open>X?\<close> and the one example with question \<^verbatim>\<open>Y?\<close> and answer
  \<^verbatim>\<open>Z\<close>, the prompt \<^verbatim>\<open>Q: Y?\nA: Z\nQ: X?\nA:\<close>. In general, when every example has a question
  and an answer, the prompt is the texts \<^verbatim>\<open>Q: <question>\nA: <answer>\n\<close> of the examples in
  the order given, followed by \<^verbatim>\<open>Q: <query>\nA:\<close>; this is the one prompt handed to the
  client.
\<close>

theorem few_shot_prompt_text:
  "few_shot_prompt cl ''X?'' [] w = generate_response cl ''Q: X?\<newline>A:'' w
   \<and> few_shot_prompt cl ''X?'' [[''question'' \<mapsto> ''Y?'', ''answer'' \<mapsto> ''Z'']] w =
       generate_response cl ''Q: Y?\<newline>A: Z\<newline>Q: X?\<newline>A:'' w
   \<and> ((\<forall>ex \<in> set examples. ex ''question'' \<noteq> None \<and> ex ''answer'' \<noteq> None) \<longrightarrow>
        few_shot_prompt cl query examples w =
          generate_response cl
            (concat (map (\<lambda>ex. ''Q: '' @ the (ex ''question'') @ ''\<newline>A: '' @ the (ex ''answer'') @ ''\<newline>'') examples)
             @ ''Q: '' @ query @ ''\<newline>A:'') w
        \<and> attempts (snd (few_shot_prompt cl query examples w)) =
          attempts w @
            [concat (map (\<lambda>ex. ''Q: '' @ the (ex ''question'') @ ''\<newline>A: '' @ the (ex ''answer'') @ ''\<newline>'') examples)
             @ ''Q: '' @ query @ ''\<newline>A:''])"
proof -
  have 1: "few_shot_prompt cl ''X?'' [] w = generate_response cl ''Q: X?\<newline>A:'' w"
    by (simp add: few_shot_prompt_def)
  have 2: "few_shot_prompt cl ''X?'' [[''question'' \<mapsto> ''Y?'', ''answer'' \<mapsto> ''Z'']] w =
       generate_response cl ''Q: Y?\<newline>A: Z\<newline>Q: X?\<newline>A:'' w"
    by (simp add: few_shot_prompt_def)
  have 3: "few_shot_prompt cl query examples w =
          generate_response cl
            (concat (map (\<lambda>ex. ''Q: '' @ the (ex ''question'') @ ''\<newline>A: '' @ the (ex ''answer'') @ ''\<newline>'') examples)
             @ ''Q: '' @ query @ ''\<newline>A:'') w"
    if "\<forall>ex \<in> set examples. ex ''question'' \<noteq> None \<and> ex ''answer'' \<noteq> None"
    using few_shot_loop_all[OF that, of "''''"] by (simp add: few_shot_prompt_def)
  show ?thesis using 1 2 3 by (simp add: attempts_generate_response)
qed

theorem few_shot_prompt_text_witness:
  "attempts (snd (few_shot_prompt (Google (\<lambda>h. Inr (Some ''3''))) ''C?''
        [[''question'' \<mapsto> ''A?'', ''answer'' \<mapsto> ''1''], [''question'' \<mapsto> ''B?'', ''answer'' \<mapsto> ''2'']]
        \<lparr>attempts = [], logged = []\<rparr>))
     = [''Q: A?\<newline>A: 1\<newline>Q: B?\<newline>A: 2\<newline>Q: C?\<newline>A:'']"
  using few_shot_prompt_text[of "Google (\<lambda>h. Inr (Some ''3''))" "\<lparr>attempts = [], logged = []\<rparr>"
     "[[''question'' \<mapsto> ''A?'', ''answer'' \<mapsto> ''1''], [''question'' \<mapsto> ''B?'', ''answer'' \<mapsto> ''2'']]" "''C?''"]
  by (simp add: generate_response_def)

text \<open>
  C7. For every context \<open>c\<close> and question \<open>q\<close>, \<^verbatim>\<open>retrieval_augmented_generation\<close> sends
  exactly the prompt \<^verbatim>\<open>Context: c\nQuestion: q\nAnswer:\<close>: it is the call of
  \<^verbatim>\<open>generate_response\<close> on this text and nothing more, so building the prompt changes
  nothing in the world and depends on \<open>c\<close> and \<open>q\<close> only. For \<^verbatim>\<open>C\<close> and \<^verbatim>\<open>Q\<close> the prompt is
  \<^verbatim>\<open>Context: C\nQuestion: Q\nAnswer:\<close>.
\<close>

theorem rag_prompt:
  "retrieval_augmented_generation cl c q w =
     generate_response cl (''Context: '' @ c @ ''\<newline>Question: '' @ q @ ''\<newline>Answer:'') w
   \<and> attempts (snd (retrieval_augmented_generation cl c q w)) =
       attempts w @ [''Context: '' @ c @ ''\<newline>Question: '' @ q @ ''\<newline>Answer:'']
   \<and> attempts (snd (retrieval_augmented_generation cl ''C'' ''Q'' w)) =
       attempts w @ [''Context: C\<newline>Question: Q\<newline>Answer:'']"
  by (simp add: retrieval_augmented_generation_def attempts_generate_response)

section \<open>Whitespace and the two substitutions\<close>

lemma lstrip_split: "\<exists>w. list_all isspace w \<and> s = w @ dropWhile isspace s"
proof (intro exI conjI)
  show "list_all isspace (takeWhile isspace s)"
    by (auto simp: list_all_iff dest: set_takeWhileD)
  show "s = takeWhile isspace s @ dropWhile isspace s" by simp
qed

lemma rstrip_split: "\<exists>w. list_all isspace w \<and> s = rstrip s @ w"
proof (intro exI conjI)
  show "list_all isspace (rev (takeWhile isspace (rev s)))"
    by (auto simp: list_all_iff dest: set_takeWhileD)
  have "rev (takeWhile isspace (rev s) @ dropWhile isspace (rev s)) = s"
    by (simp only: takeWhile_dropWhile_id rev_rev_ident)
  then show "s = rstrip s @ rev (takeWhile isspace (rev s))"
    by (simp only: rstrip_def rev_append)
qed

lemma dropWhile_ws_append:
  "list_all isspace w \<Longrightarrow> dropWhile isspace (w @ s) = dropWhile isspace s"
  by (induction w) auto

lemma length_rstrip: "length (rstrip s) \<le> length s"
  by (simp add: rstrip_def length_dropWhile_le[of isspace "rev s", simplified])

lemma rstrip_append_ws:
  assumes "b \<noteq> []" "\<not> isspace (last b)" "list_all isspace w"
  shows "rstrip (a @ b @ w) = a @ b"
proof -
  have 1: "dropWhile isspace (rev w @ rev b @ rev a) = dropWhile isspace (rev b @ rev a)"
    using assms(3) dropWhile_ws_append[of "rev w"] by simp
  from assms(1,2) obtain c r where "rev b = c # r" "\<not> isspace c"
    by (cases "rev b") (auto simp: last_rev[symmetric] simp del: last_rev)
  then have "dropWhile isspace (rev b @ rev a) = rev b @ rev a" by simp
  with 1 show ?thesis by (simp add: rstrip_def)
qed

lemma rstrip_ws: "list_all isspace w \<Longrightarrow> rstrip w = []"
  using dropWhile_ws_append[of "rev w" "[]"] by (simp add: rstrip_def)

lemma strip_wrap:
  assumes "x \<noteq> []" "\<not> isspace (hd x)" "\<not> isspace (last x)" "list_all isspace pre" "list_all isspace post"
  shows "strip (pre @ x @ post) = x"
proof -
  have "lstrip (pre @ x @ post) = dropWhile isspace (x @ post)"
    using assms(4) by (simp add: lstrip_def dropWhile_ws_append)
  also have "\<dots> = x @ post" using assms(1,2) by (cases x) auto
  finally have "strip (pre @ x @ post) = rstrip ([] @ x @ post)" by (simp add: strip_def)
  also have "\<dots> = [] @ x" using assms(1,3,5) by (rule rstrip_append_ws)
  finally show ?thesis by simp
qed

lemma strip_ws: "list_all isspace w \<Longrightarrow> strip w = []"
proof -
  assume "list_all isspace w"
  then have 1: "dropWhile isspace w = []" by (simp add: list_all_iff)
  show ?thesis unfolding strip_def lstrip_def rstrip_def 1 by simp
qed

lemma sub_leading_fence_noop: "\<not> prefix ''```'' s \<Longrightarrow> sub_leading_fence s = s"
  by (simp add: sub_leading_fence_def)

lemma sub_leading_fence_split:
  assumes "prefix ''```'' s"
  shows "\<exists>w. list_all isspace w \<and>
           (s = ''```'' @ w @ sub_leading_fence s \<or> s = ''```json'' @ w @ sub_leading_fence s)"
proof -
  from assms obtain r where s: "s = ''```'' @ r" by (auto simp: prefix_def)
  show ?thesis
  proof (cases "prefix ''json'' r")
    case True
    then obtain r' where r: "r = ''json'' @ r'" by (auto simp: prefix_def)
    obtain w where w: "list_all isspace w" "r' = w @ dropWhile isspace r'"
      using lstrip_split by blast
    have "sub_leading_fence s = dropWhile isspace r'"
      using s r by (simp add: sub_leading_fence_def)
    with w s r have "s = ''```json'' @ w @ sub_leading_fence s" by simp
    with w(1) show ?thesis by blast
  next
    case False
    obtain w where w: "list_all isspace w" "r = w @ dropWhile isspace r"
      using lstrip_split by blast
    have "sub_leading_fence s = dropWhile isspace r"
      using s False by (simp add: sub_leading_fence_def)
    with w s have "s = ''```'' @ w @ sub_leading_fence s" by simp
    with w(1) show ?thesis by blast
  qed
qed

lemma sub_leading_fence_suffix: "suffix (sub_leading_fence s) s"
proof (cases "prefix ''```'' s")
  case True
  from sub_leading_fence_split[OF this] show ?thesis
    by (metis append.assoc suffixI)
next
  case False
  then show ?thesis by (simp add: sub_leading_fence_noop)
qed

lemma sub_leading_fence_hd:
  "prefix ''```'' s \<Longrightarrow> sub_leading_fence s = [] \<or> \<not> isspace (hd (sub_leading_fence s))"
  using hd_dropWhile[of isspace] by (auto simp: sub_leading_fence_def Let_def)

lemma length_sub_leading_fence: "prefix ''```'' s \<Longrightarrow> length (sub_leading_fence s) < length s"
proof -
  assume p: "prefix ''```'' s"
  then have l: "3 \<le> length s" using prefix_length_le by fastforce
  have a: "length (dropWhile isspace (drop 4 (drop 3 s))) \<le> length s - 3"
    using length_dropWhile_le[of isspace "drop 4 (drop 3 s)"] by simp
  have b: "length (dropWhile isspace (drop 3 s)) \<le> length s - 3"
    using length_dropWhile_le[of isspace "drop 3 s"] by simp
  have "length (sub_leading_fence s) \<le> length s - 3"
    using p a b by (simp add: sub_leading_fence_def Let_def)
  with l show ?thesis by arith
qed

lemma sub_trailing_fence_trimmed:
  "strip s = s \<Longrightarrow>
   sub_trailing_fence s = (if suffix ''```'' s then rstrip (take (length s - 3) s) else s)"
  by (auto simp: strip_eq_iff sub_trailing_fence_def isspace_def)

lemma sub_trailing_fence_noop:
  "strip s = s \<Longrightarrow> \<not> suffix ''```'' s \<Longrightarrow> sub_trailing_fence s = s"
  by (simp add: sub_trailing_fence_trimmed)

lemma sub_trailing_fence_split:
  assumes "strip s = s" and "suffix ''```'' s"
  shows "\<exists>w. list_all isspace w \<and> s = sub_trailing_fence s @ w @ ''```''"
proof -
  from assms(2) obtain t where s: "s = t @ ''```''" by (auto simp: suffix_def)
  then have t: "take (length s - 3) s = t" by simp
  have z: "sub_trailing_fence s = rstrip t"
    using assms t by (simp add: sub_trailing_fence_trimmed)
  obtain w where w: "list_all isspace w" "t = rstrip t @ w" using rstrip_split by blast
  from w(2) s z have "s = sub_trailing_fence s @ w @ ''```''" by simp
  with w(1) show ?thesis by blast
qed

lemma length_sub_trailing_fence:
  assumes "strip s = s" and "suffix ''```'' s"
  shows "length (sub_trailing_fence s) < length s"
proof -
  from assms(2) have l: "3 \<le> length s" using suffix_length_le by fastforce
  have "length (rstrip (take (length s - 3) s)) \<le> length s - 3"
    using length_rstrip[of "take (length s - 3) s"] by simp
  with l assms show ?thesis by (simp add: sub_trailing_fence_trimmed)
qed

lemma strip_sub_leading_fence:
  assumes "strip s = s"
  shows "strip (sub_leading_fence s) = sub_leading_fence s"
proof (cases "prefix ''```'' s")
  case False
  with assms show ?thesis by (simp add: sub_leading_fence_noop)
next
  case True
  let ?y = "sub_leading_fence s"
  show ?thesis
  proof (cases "?y = []")
    case True
    then show ?thesis by (simp add: strip_eq_iff)
  next
    case False
    from sub_leading_fence_suffix[of s] obtain zs where zs: "s = zs @ ?y" by (auto simp: suffix_def)
    with False have "last s = last ?y" by (metis last_appendR)
    moreover from False zs have "s \<noteq> []" by auto
    ultimately have "\<not> isspace (last ?y)" using assms by (simp add: strip_eq_iff)
    moreover have "\<not> isspace (hd ?y)" using sub_leading_fence_hd[OF True] False by simp
    ultimately show ?thesis by (simp add: strip_eq_iff)
  qed
qed

lemma strip_sub_trailing_fence:
  assumes "strip s = s"
  shows "strip (sub_trailing_fence s) = sub_trailing_fence s"
proof (cases "suffix ''```'' s")
  case False
  with assms show ?thesis by (simp add: sub_trailing_fence_noop)
next
  case True
  then obtain t where s: "s = t @ ''```''" by (auto simp: suffix_def)
  then have z: "sub_trailing_fence s = rstrip t"
    using assms True by (simp add: sub_trailing_fence_trimmed)
  show ?thesis
  proof (cases "t = []")
    case True
    with z show ?thesis by (simp add: rstrip_def strip_eq_iff)
  next
    case False
    with s have "hd s = hd t" by simp
    moreover from s have "s \<noteq> []" by simp
    ultimately have "\<not> isspace (hd t)" using assms by (simp add: strip_eq_iff)
    from rstrip_hd[OF False this] rstrip_last[of t] this z show ?thesis
      by (simp add: strip_eq_iff)
  qed
qed

lemma strip_strip_fences: "strip (strip_fences s) = strip_fences s"
  by (simp add: strip_fences_def strip_sub_trailing_fence strip_sub_leading_fence strip_strip)

lemma length_sub_trailing_fence_le:
  "strip s = s \<Longrightarrow> length (sub_trailing_fence s) \<le> length s"
  using length_sub_trailing_fence[of s] by (cases "suffix ''```'' s") (auto simp: sub_trailing_fence_noop)

lemma strip_fences_fixed:
  assumes "strip z = z"
  shows "strip_fences z = z \<longleftrightarrow> \<not> prefix ''```'' z \<and> \<not> suffix ''```'' z"
proof (cases "prefix ''```'' z")
  case True
  have "length (strip_fences z) \<le> length (sub_leading_fence z)"
    using assms by (simp add: strip_fences_def length_sub_trailing_fence_le strip_sub_leading_fence)
  also have "\<dots> < length z" using True by (rule length_sub_leading_fence)
  finally have "strip_fences z \<noteq> z" by auto
  with True show ?thesis by simp
next
  case False
  then have 1: "strip_fences z = sub_trailing_fence z"
    using assms by (simp add: strip_fences_def sub_leading_fence_noop)
  show ?thesis
  proof (cases "suffix ''```'' z")
    case True
    from length_sub_trailing_fence[OF assms True] 1 have "strip_fences z \<noteq> z" by auto
    with True show ?thesis by simp
  next
    case s: False
    with 1 assms False show ?thesis by (simp add: sub_trailing_fence_noop)
  qed
qed


lemma rstrip_trimmed_ws:
  assumes "strip b = b" "list_all isspace w"
  shows "rstrip (b @ w) = b"
proof (cases "b = []")
  case True
  with assms(2) show ?thesis by (simp add: rstrip_ws)
next
  case False
  with assms(1) have "\<not> isspace (last b)" by (simp add: strip_eq_iff)
  from rstrip_append_ws[OF False this assms(2), of "[]"] show ?thesis by simp
qed

lemma isspace_backtick: "\<not> isspace (CHR 0x60)"
  by (simp add: isspace_def)

lemma lstrip_body:
  assumes "strip b = b" "b \<noteq> []" "list_all isspace w1"
  shows "dropWhile isspace (w1 @ b @ r) = b @ r"
proof -
  from assms(1,2) have "\<not> isspace (hd b)" by (simp add: strip_eq_iff)
  with assms(2) have "dropWhile isspace (b @ r) = b @ r"
    by (cases b) auto
  with assms(3) show ?thesis by (simp add: dropWhile_ws_append)
qed

lemma lstrip_ws_fence:
  assumes "list_all isspace w"
  shows "dropWhile isspace (w @ ''```'') = ''```''"
proof -
  have "dropWhile isspace (w @ ''```'') = dropWhile isspace ''```''"
    using assms by (rule dropWhile_ws_append)
  then show ?thesis by (simp add: isspace_backtick)
qed

lemma not_prefix_json_body:
  assumes "\<not> prefix ''json'' b" "list_all isspace w1" "list_all isspace w2"
  shows "\<not> prefix ''json'' (w1 @ b @ w2 @ ''```'')"
proof
  assume p: "prefix ''json'' (w1 @ b @ w2 @ ''```'')"
  have j: "\<not> isspace (CHR ''j'')" "\<not> isspace (CHR ''s'')" "\<not> isspace (CHR ''o'')" "\<not> isspace (CHR ''n'')"
    by (simp_all add: isspace_def)
  have w1: "w1 = []"
  proof (cases w1)
    case (Cons c r)
    with p have "c = CHR ''j''" by simp
    with Cons assms(2) j show ?thesis by simp
  qed simp
  from p w1 have "prefix ''json'' (b @ (w2 @ ''```''))" by simp
  then obtain us where us: "''json'' = b @ us" "prefix us (w2 @ ''```'')"
    using assms(1) by (auto simp: prefix_append)
  from us(1) assms(1) have "us \<noteq> []" by auto
  then obtain c r where cr: "us = c # r" by (cases us) auto
  then have "c \<in> set (b @ us)" by simp
  then have "c \<in> set ''json''" by (simp only: us(1)[symmetric])
  then have c: "c \<in> {CHR ''j'', CHR ''s'', CHR ''o'', CHR ''n''}" by simp
  from us(2) cr have "hd (w2 @ ''```'') = c" by (cases "w2 @ ''```''") auto
  moreover have "isspace (hd (w2 @ ''```'')) \<or> hd (w2 @ ''```'') = CHR 0x60"
    using assms(3) by (cases w2) auto
  ultimately show False using c j by auto
qed

lemma strip_trimmed_ws:
  assumes "strip b = b" "list_all isspace pre" "list_all isspace post"
  shows "strip (pre @ b @ post) = b"
proof (cases "b = []")
  case True
  with assms(2,3) show ?thesis using strip_ws[of "pre @ post"] by simp
next
  case False
  with assms(1) have "\<not> isspace (hd b)" "\<not> isspace (last b)" by (simp_all add: strip_eq_iff)
  from strip_wrap[OF False this assms(2,3)] show ?thesis .
qed

lemma strip_fences_strip: "strip_fences (strip s) = strip_fences s"
  by (simp add: strip_fences_def strip_strip)

lemma strip_fences_plain:
  assumes "strip b = b" "\<not> prefix ''```'' b" "\<not> suffix ''```'' b"
    and "list_all isspace pre" "list_all isspace post"
  shows "strip_fences (pre @ b @ post) = b"
proof -
  have "strip_fences (pre @ b @ post) = strip_fences (strip (pre @ b @ post))"
    by (simp add: strip_fences_strip)
  also have "\<dots> = strip_fences b" using assms(1,4,5) by (simp add: strip_trimmed_ws)
  also have "\<dots> = b" using assms(1,2,3) by (simp add: strip_fences_fixed)
  finally show ?thesis .
qed

lemma sub_trailing_body:
  assumes "strip b = b" "list_all isspace w"
  shows "sub_trailing_fence (b @ w @ ''```'') = b"
proof -
  let ?y = "b @ w @ ''```''"
  have 1: "last ?y \<noteq> CHR 0x0A" by simp
  have 2: "suffix ''```'' ?y" by (metis append.assoc suffixI)
  have 3: "take (length ?y - 3) ?y = b @ w" by simp
  have "sub_trailing_fence ?y = rstrip (take (length ?y - 3) ?y)"
    unfolding sub_trailing_fence_def using 1 2 by (simp only: if_True if_False simp_thms)
  with 3 assms show ?thesis by (simp only: rstrip_trimmed_ws)
qed

lemma lstrip_body_fence:
  assumes "strip b = b" "list_all isspace w1" "list_all isspace w2"
  shows "\<exists>w. list_all isspace w \<and> dropWhile isspace (w1 @ b @ w2 @ ''```'') = b @ w @ ''```''"
proof (cases "b = []")
  case True
  have "dropWhile isspace ((w1 @ w2) @ ''```'') = ''```''"
    using assms(2,3) by (intro lstrip_ws_fence) simp
  with True have "list_all isspace [] \<and> dropWhile isspace (w1 @ b @ w2 @ ''```'') = b @ [] @ ''```''"
    by simp
  then show ?thesis by blast
next
  case False
  from lstrip_body[OF assms(1) False assms(2)] assms(3) show ?thesis by blast
qed

lemma strip_fences_fenced:
  assumes "strip b = b" "tag = [] \<and> \<not> prefix ''json'' b \<or> tag = ''json''"
    and "list_all isspace pre" "list_all isspace post" "list_all isspace w1" "list_all isspace w2"
  shows "strip_fences (pre @ ''```'' @ tag @ w1 @ b @ w2 @ ''```'' @ post) = b"
proof -
  let ?r = "w1 @ b @ w2 @ ''```''"
  let ?x = "''```'' @ tag @ ?r"
  have "strip (pre @ ?x @ post) = ?x"
    by (rule strip_wrap) (simp_all add: isspace_backtick assms(3,4))
  then have 0: "strip_fences (pre @ ''```'' @ tag @ w1 @ b @ w2 @ ''```'' @ post)
      = sub_trailing_fence (sub_leading_fence ?x)"
    by (simp add: strip_fences_def)
  have 1: "sub_leading_fence ?x = dropWhile isspace ?r"
  proof (cases "tag = []")
    case True
    with assms(2) have "\<not> prefix ''json'' b" by auto
    from not_prefix_json_body[OF this assms(5,6)] True show ?thesis
      by (simp add: sub_leading_fence_def)
  next
    case False
    with assms(2) have "tag = ''json''" by auto
    then show ?thesis by (simp add: sub_leading_fence_def)
  qed
  from lstrip_body_fence[OF assms(1,5,6)] obtain w where
    w: "list_all isspace w" "dropWhile isspace ?r = b @ w @ ''```''" by blast
  from 0 1 w(2) sub_trailing_body[OF assms(1) w(1)] show ?thesis by simp
qed

section \<open>The normalizer\<close>

text \<open>
  C1. Let \<open>b\<close> be a trimmed text that the decoder accepts with value \<open>v\<close>. The text is
  given bare, or between an untagged pair of triple backticks, or between a pair whose
  opening marker carries the lowercase tag \<^verbatim>\<open>json\<close>, in each case with any whitespace around
  it and around the markers. The normalizer returns \<open>v\<close>, the value of decoding \<open>b\<close>
  itself, and logs nothing. What is assumed of \<open>b\<close> holds of every well-formed JSON text:
  it neither begins nor ends with a backtick and does not begin with the letters
  \<^verbatim>\<open>json\<close>.
\<close>

theorem normalizer_parses_fenced_json:
  assumes "loads b = Inr v" and "strip b = b"
    and "\<not> prefix ''```'' b" and "\<not> prefix ''json'' b" and "\<not> suffix ''```'' b"
    and "list_all isspace pre" and "list_all isspace post"
    and "list_all isspace w1" and "list_all isspace w2"
  shows "response_normalizer loads (pre @ b @ post) w = (Inr v, w)
       \<and> response_normalizer loads (pre @ ''```'' @ w1 @ b @ w2 @ ''```'' @ post) w = (Inr v, w)
       \<and> response_normalizer loads (pre @ ''```json'' @ w1 @ b @ w2 @ ''```'' @ post) w = (Inr v, w)"
proof -
  have 1: "strip_fences (pre @ b @ post) = b"
    using assms(2,3,5,6,7) by (rule strip_fences_plain)
  have 2: "strip_fences (pre @ ''```'' @ [] @ w1 @ b @ w2 @ ''```'' @ post) = b"
    using assms(2,4,6,7,8,9) by (intro strip_fences_fenced) simp_all
  have 3: "strip_fences (pre @ ''```'' @ ''json'' @ w1 @ b @ w2 @ ''```'' @ post) = b"
    using assms(2,6,7,8,9) by (intro strip_fences_fenced) simp_all
  from 2 have 2: "strip_fences (pre @ ''```'' @ w1 @ b @ w2 @ ''```'' @ post) = b" by simp
  from 3 have 3: "strip_fences (pre @ ''```json'' @ w1 @ b @ w2 @ ''```'' @ post) = b" by simp
  show ?thesis
    unfolding response_normalizer_def 1 2 3 by (simp add: parse_or_report_def assms(1))
qed

theorem normalizer_parses_fenced_json_witness:
  \<open>response_normalizer
      (\<lambda>s. if s = ''{"answer": "x"}'' then Inr (PyDict [(''answer'', PyStr ''x'' :: unit pyval)]) else Inl JSONDecodeError)
      '' {"answer": "x"}\<newline>'' \<lparr>attempts = [], logged = []\<rparr>
    = (Inr (PyDict [(''answer'', PyStr ''x'')]), \<lparr>attempts = [], logged = []\<rparr>)
   \<and> response_normalizer
      (\<lambda>s. if s = ''{"answer": "x"}'' then Inr (PyDict [(''answer'', PyStr ''x'' :: unit pyval)]) else Inl JSONDecodeError)
      '' ```\<newline>{"answer": "x"}\<newline>```\<newline>'' \<lparr>attempts = [], logged = []\<rparr>
    = (Inr (PyDict [(''answer'', PyStr ''x'')]), \<lparr>attempts = [], logged = []\<rparr>)
   \<and> response_normalizer
      (\<lambda>s. if s = ''{"answer": "x"}'' then Inr (PyDict [(''answer'', PyStr ''x'' :: unit pyval)]) else Inl JSONDecodeError)
      '' ```json\<newline>{"answer": "x"}\<newline>```\<newline>'' \<lparr>attempts = [], logged = []\<rparr>
    = (Inr (PyDict [(''answer'', PyStr ''x'')]), \<lparr>attempts = [], logged = []\<rparr>)\<close>
proof -
  have s: \<open>strip ''{"answer": "x"}'' = ''{"answer": "x"}''\<close>
    by (simp add: strip_eq_iff isspace_def)
  have x: \<open>\<not> suffix ''```'' ''{"answer": "x"}''\<close>
    by (simp add: suffix_to_prefix)
  show ?thesis
    using normalizer_parses_fenced_json[where b = \<open>''{"answer": "x"}''\<close>
      and loads = \<open>\<lambda>s. if s = ''{"answer": "x"}'' then Inr (PyDict [(''answer'', PyStr ''x'' :: unit pyval)]) else Inl JSONDecodeError\<close>
      and v = "PyDict [(''answer'', PyStr ''x'')]"
      and pre = "'' ''" and post = "''\<newline>''" and ?w1.0 = "''\<newline>''" and ?w2.0 = "''\<newline>''"
      and w = "\<lparr>attempts = [], logged = []\<rparr>", OF _ s _ _ x]
    by (simp add: isspace_def)
qed

text \<open>
  Where the decoder raises \<^verbatim>\<open>JSONDecodeError\<close> on the cleaned text, the normalizer raises
  nothing: it returns the dictionary with \<^verbatim>\<open>error\<close> set to \<^verbatim>\<open>Failed to parse JSON\<close> and
  \<^verbatim>\<open>raw_response\<close> set to the text it was given, unchanged, and logs the cleaned text. The
  empty text is cleaned to the empty text. An exception leaves the normalizer exactly
  when the decoder raises one that is not \<^verbatim>\<open>JSONDecodeError\<close>.
\<close>

lemma normalizer_reports_failure:
  "(loads (strip_fences result) = Inl JSONDecodeError \<longrightarrow>
      response_normalizer loads result w =
        (Inr (PyDict [(''error'', PyStr ''Failed to parse JSON''), (''raw_response'', PyStr result)]),
         w\<lparr>logged := logged w @ [JSONParseError (strip_fences result)]\<rparr>))
   \<and> strip_fences [] = []
   \<and> (loads [] = Inl JSONDecodeError \<longrightarrow>
      response_normalizer loads [] w =
        (Inr (PyDict [(''error'', PyStr ''Failed to parse JSON''), (''raw_response'', PyStr [])]),
         w\<lparr>logged := logged w @ [JSONParseError []]\<rparr>))
   \<and> ((\<exists>e. fst (response_normalizer loads result w) = Inl e) \<longleftrightarrow>
        (\<exists>e. loads (strip_fences result) = Inl e \<and> e \<noteq> JSONDecodeError))"
proof -
  have e: "strip_fences [] = []"
    by (simp add: strip_fences_def strip_def lstrip_def rstrip_def sub_leading_fence_def sub_trailing_fence_def)
  have r: "(\<exists>e. fst (response_normalizer loads result w) = Inl e) \<longleftrightarrow>
        (\<exists>e. loads (strip_fences result) = Inl e \<and> e \<noteq> JSONDecodeError)"
    by (auto simp: response_normalizer_def parse_or_report_def split: sum.splits pyexn.splits)
  show ?thesis
    using r by (simp add: response_normalizer_def parse_or_report_def e)
qed


lemma strip_fences_unfenced:
  assumes "z \<noteq> []" and "\<not> isspace (hd z)" and "\<not> isspace (last z)"
    and "hd z \<noteq> CHR 0x60" and "last z \<noteq> CHR 0x60"
  shows "strip_fences z = z"
proof -
  have s: "strip z = z" using assms(1-3) by (simp add: strip_eq_iff)
  have p: "\<not> prefix ''```'' z" using assms(1,4) by (cases z) auto
  have "\<not> suffix ''```'' z"
  proof
    assume "suffix ''```'' z"
    then obtain t where "z = t @ ''```''" by (auto simp: suffix_def)
    then have "last z = CHR 0x60" by simp
    with assms(5) show False by simp
  qed
  with s p show ?thesis by (simp add: strip_fences_fixed)
qed

text \<open>
  C2. The claim asks that no text which fails to decode makes the normalizer raise. Line
  108 catches \<^verbatim>\<open>JSONDecodeError\<close> and nothing else, so any other exception of the decoder
  leaves the function, with nothing logged and no dictionary returned. Two malformed
  texts on which \<^verbatim>\<open>json.loads\<close> raises another exception: 1000 opening square brackets
  (\<^verbatim>\<open>RecursionError\<close>), and an integer of 4301 digits followed by a space and a letter
  (\<^verbatim>\<open>ValueError\<close>). The cleaning leaves both as they are, and on both the normalizer raises
  what the decoder raised.
\<close>

theorem normalizer_raises_other_errors:
  "(loads (strip_fences result) = Inl e \<and> e \<noteq> JSONDecodeError \<longrightarrow>
      response_normalizer loads result w = (Inl e, w))
   \<and> strip_fences (replicate 1000 CHR ''['') = replicate 1000 CHR ''[''
   \<and> (loads (replicate 1000 CHR ''['') = Inl RecursionError \<longrightarrow>
      response_normalizer loads (replicate 1000 CHR ''['') w = (Inl RecursionError, w))
   \<and> strip_fences (replicate 4301 CHR ''1'' @ '' x'') = replicate 4301 CHR ''1'' @ '' x''
   \<and> (loads (replicate 4301 CHR ''1'' @ '' x'') = Inl (ValueError msg) \<longrightarrow>
      response_normalizer loads (replicate 4301 CHR ''1'' @ '' x'') w = (Inl (ValueError msg), w))"
proof -
  have 1: "response_normalizer loads r w = (Inl x, w)"
    if "loads (strip_fences r) = Inl x" "x \<noteq> JSONDecodeError" for r x
    using that by (cases x) (simp_all add: response_normalizer_def parse_or_report_def)
  have 2: "strip_fences (replicate 1000 CHR ''['') = replicate 1000 CHR ''[''"
    by (rule strip_fences_unfenced) (simp_all add: isspace_def)
  have 3: "strip_fences (replicate 4301 CHR ''1'' @ '' x'') = replicate 4301 CHR ''1'' @ '' x''"
    by (rule strip_fences_unfenced) (simp_all add: isspace_def)
  show ?thesis
    using 1[of result e] 1[of "replicate 1000 CHR ''[''" RecursionError]
      1[of "replicate 4301 CHR ''1'' @ '' x''" "ValueError msg"]
    unfolding 2 3 by simp
qed

theorem normalizer_raises_other_errors_witness:
  "response_normalizer (\<lambda>s. Inl RecursionError :: pyexn + unit pyval)
      (replicate 1000 CHR ''['') \<lparr>attempts = [], logged = []\<rparr>
     = (Inl RecursionError, \<lparr>attempts = [], logged = []\<rparr>)
   \<and> response_normalizer (\<lambda>s. Inl (ValueError ''Exceeds the limit'') :: pyexn + unit pyval)
      (replicate 4301 CHR ''1'' @ '' x'') \<lparr>attempts = [], logged = []\<rparr>
     = (Inl (ValueError ''Exceeds the limit''), \<lparr>attempts = [], logged = []\<rparr>)"
  using normalizer_raises_other_errors[of "\<lambda>s. Inl RecursionError :: pyexn + unit pyval"
      "replicate 1000 CHR ''[''" RecursionError "\<lparr>attempts = [], logged = []\<rparr>"]
    normalizer_raises_other_errors[of "\<lambda>s. Inl (ValueError ''Exceeds the limit'') :: pyexn + unit pyval"
      "replicate 4301 CHR ''1'' @ '' x''" "ValueError ''Exceeds the limit''" "\<lparr>attempts = [], logged = []\<rparr>"
      "''Exceeds the limit''"]
  by simp

section \<open>One pass, one pair of markers\<close>

lemmas fence_eval = strip_fences_def strip_def lstrip_def rstrip_def sub_leading_fence_def
  sub_trailing_fence_def isspace_def suffix_to_prefix

text \<open>
  C4, as stated, fails: a text fenced twice loses one pair of markers at each pass.
\<close>

theorem strip_fences_twice_counterexample:
  "strip_fences ''```\<newline>```json\<newline>{}\<newline>```\<newline>```'' = ''```json\<newline>{}\<newline>```''
   \<and> strip_fences (strip_fences ''```\<newline>```json\<newline>{}\<newline>```\<newline>```'') = ''{}''
   \<and> strip_fences (strip_fences ''```\<newline>```json\<newline>{}\<newline>```\<newline>```'')
       \<noteq> strip_fences ''```\<newline>```json\<newline>{}\<newline>```\<newline>```''"
  by (simp add: fence_eval)

text \<open>
  C4, amended. One pass removes at most one leading and one trailing marker. A second
  pass changes nothing exactly when the text left by the first pass neither begins nor
  ends with a triple backtick.
\<close>

theorem strip_fences_idempotent_iff:
  "strip_fences (strip_fences s) = strip_fences s \<longleftrightarrow>
     \<not> prefix ''```'' (strip_fences s) \<and> \<not> suffix ''```'' (strip_fences s)"
  by (rule strip_fences_fixed) (rule strip_strip_fences)

theorem strip_fences_idempotent_iff_witness:
  "\<not> prefix ''```'' (strip_fences '' ```json\<newline>{}\<newline>``` '')
   \<and> \<not> suffix ''```'' (strip_fences '' ```json\<newline>{}\<newline>``` '')
   \<and> strip_fences '' ```json\<newline>{}\<newline>``` '' = ''{}''
   \<and> strip_fences (strip_fences '' ```json\<newline>{}\<newline>``` '') = strip_fences '' ```json\<newline>{}\<newline>``` ''"
proof -
  have s: "strip_fences '' ```json\<newline>{}\<newline>``` '' = ''{}''"
    by (simp add: fence_eval)
  have p: "\<not> prefix ''```'' ''{}''" "\<not> suffix ''```'' ''{}''"
    by (simp_all add: suffix_to_prefix)
  show ?thesis
    using strip_fences_idempotent_iff[of "'' ```json\<newline>{}\<newline>``` ''"] p
    unfolding s by simp
qed

text \<open>
  C5, as stated, fails: after the marker \<^verbatim>\<open>```JSON\<close> the backticks go and the tag stays.
\<close>

theorem uppercase_tag_counterexample:
  "strip_fences ''```JSON\<newline>{}\<newline>```'' = ''JSON\<newline>{}''
   \<and> strip_fences ''```json\<newline>{}\<newline>```'' = ''{}''
   \<and> strip_fences ''```JSON\<newline>{}\<newline>```'' \<noteq> strip_fences ''```json\<newline>{}\<newline>```''"
  by (simp add: fence_eval)

lemma json_casings_tag:
  assumes "t \<in> set json_casings"
  shows "t \<noteq> []" and "\<not> isspace (hd t)" and "prefix ''json'' (t @ r) \<longleftrightarrow> t = ''json''"
  using assms by (auto simp: json_casings_def isspace_def)

text \<open>
  C5, amended. Let the opening marker carry the tag \<open>t\<close>, one of the sixteen casings of
  \<^verbatim>\<open>json\<close>, and let \<open>b\<close> be a trimmed, non-empty text. Only for the lowercase tag is the
  cleaned text \<open>b\<close>, and the normalizer then returns the value of decoding \<open>b\<close>. For every
  other casing the three backticks are removed and the tag is not: the cleaned text is
  the tag, the whitespace after it and \<open>b\<close>, and the normalizer returns the error
  dictionary when the decoder rejects that text.
\<close>

theorem leading_tag_case_sensitive:
  assumes "t \<in> set json_casings" and "strip b = b" and "b \<noteq> []"
    and "list_all isspace pre" and "list_all isspace post"
    and "list_all isspace w1" and "list_all isspace w2"
  shows "strip_fences (pre @ ''```'' @ t @ w1 @ b @ w2 @ ''```'' @ post) =
           (if t = ''json'' then b else t @ w1 @ b)
       \<and> (t = ''json'' \<and> loads b = Inr v \<longrightarrow>
            response_normalizer loads (pre @ ''```'' @ t @ w1 @ b @ w2 @ ''```'' @ post) w = (Inr v, w))
       \<and> (t \<noteq> ''json'' \<and> loads (t @ w1 @ b) = Inl JSONDecodeError \<longrightarrow>
            response_normalizer loads (pre @ ''```'' @ t @ w1 @ b @ w2 @ ''```'' @ post) w =
              (Inr (PyDict [(''error'', PyStr ''Failed to parse JSON''),
                            (''raw_response'', PyStr (pre @ ''```'' @ t @ w1 @ b @ w2 @ ''```'' @ post))]),
               w\<lparr>logged := logged w @ [JSONParseError (t @ w1 @ b)]\<rparr>))"
proof -
  let ?in = "pre @ ''```'' @ t @ w1 @ b @ w2 @ ''```'' @ post"
  have 1: "strip_fences ?in = (if t = ''json'' then b else t @ w1 @ b)"
  proof (cases "t = ''json''")
    case True
    have "strip_fences (pre @ ''```'' @ ''json'' @ w1 @ b @ w2 @ ''```'' @ post) = b"
      using assms(2,4,5,6,7) by (intro strip_fences_fenced) simp_all
    with True show ?thesis by simp
  next
    case False
    let ?b = "t @ w1 @ b"
    let ?x = "''```'' @ ?b @ w2 @ ''```''"
    have "strip (pre @ ?x @ post) = ?x"
      by (rule strip_wrap) (simp_all add: isspace_backtick assms(4,5))
    then have 0: "strip_fences ?in = sub_trailing_fence (sub_leading_fence ?x)"
      by (simp add: strip_fences_def)
    have np: "\<not> prefix ''json'' (t @ w1 @ b @ w2 @ ''```'')"
      using json_casings_tag(3)[OF assms(1)] False by simp
    have "dropWhile isspace (t @ w1 @ b @ w2 @ ''```'') = t @ w1 @ b @ w2 @ ''```''"
      using json_casings_tag(1,2)[OF assms(1)] by (cases t) auto
    with np have l: "sub_leading_fence ?x = ?b @ w2 @ ''```''"
      by (simp add: sub_leading_fence_def)
    have "last ?b = last b" using assms(3) by simp
    moreover have "hd ?b = hd t" using json_casings_tag(1)[OF assms(1)] by simp
    ultimately have "strip ?b = ?b"
      using assms(2,3) json_casings_tag(1,2)[OF assms(1)] by (simp add: strip_eq_iff)
    from sub_trailing_body[OF this assms(7)] 0 l False show ?thesis by simp
  qed
  show ?thesis
    unfolding response_normalizer_def 1 by (simp add: parse_or_report_def)
qed

theorem leading_tag_case_sensitive_witness:
  \<open>''Json'' \<in> set json_casings
   \<and> strip_fences ''```Json\<newline>{}\<newline>```'' = ''Json\<newline>{}''
   \<and> response_normalizer (\<lambda>s. if s = ''{}'' then Inr (PyDict [] :: unit pyval) else Inl JSONDecodeError)
        ''```Json\<newline>{}\<newline>```'' \<lparr>attempts = [], logged = []\<rparr>
      = (Inr (PyDict [(''error'', PyStr ''Failed to parse JSON''),
                      (''raw_response'', PyStr ''```Json\<newline>{}\<newline>```'')]),
         \<lparr>attempts = [], logged = [JSONParseError ''Json\<newline>{}'']\<rparr>)\<close>
proof -
  have c: "''Json'' \<in> set json_casings" by (simp add: json_casings_def)
  have s: "strip ''{}'' = ''{}''" by (simp add: strip_eq_iff isspace_def)
  show ?thesis
    using c leading_tag_case_sensitive[OF c s, where pre = "[]" and post = "[]"
        and ?w1.0 = "''\<newline>''" and ?w2.0 = "''\<newline>''"
        and loads = "\<lambda>s. if s = ''{}'' then Inr (PyDict [] :: unit pyval) else Inl JSONDecodeError"
        and w = "\<lparr>attempts = [], logged = []\<rparr>"]
    by (simp add: isspace_def)
qed

lemma strip_fences_split:
  "\<exists>p q. strip s = p @ strip_fences s @ q
     \<and> (p = [] \<or> (\<exists>w. list_all isspace w \<and> (p = ''```'' @ w \<or> p = ''```json'' @ w)))
     \<and> (q = [] \<or> (\<exists>w. list_all isspace w \<and> q = w @ ''```''))"
proof -
  let ?x = "strip s"
  let ?y = "sub_leading_fence ?x"
  let ?z = "sub_trailing_fence ?y"
  have y: "strip ?y = ?y" by (simp add: strip_sub_leading_fence strip_strip)
  obtain p where p: "?x = p @ ?y"
    "p = [] \<or> (\<exists>w. list_all isspace w \<and> (p = ''```'' @ w \<or> p = ''```json'' @ w))"
  proof (cases "prefix ''```'' ?x")
    case True
    from sub_leading_fence_split[OF this] obtain w where
      w: "list_all isspace w" "?x = ''```'' @ w @ ?y \<or> ?x = ''```json'' @ w @ ?y" by blast
    from w(2) show ?thesis
    proof
      assume "?x = ''```'' @ w @ ?y"
      then have "?x = (''```'' @ w) @ ?y" by simp
      with w(1) show ?thesis by (intro that[of "''```'' @ w"]) blast+
    next
      assume "?x = ''```json'' @ w @ ?y"
      then have "?x = (''```json'' @ w) @ ?y" by simp
      with w(1) show ?thesis by (intro that[of "''```json'' @ w"]) blast+
    qed
  next
    case False
    then show ?thesis by (intro that[of "[]"]) (simp_all add: sub_leading_fence_noop)
  qed
  obtain q where q: "?y = ?z @ q" "q = [] \<or> (\<exists>w. list_all isspace w \<and> q = w @ ''```'')"
  proof (cases "suffix ''```'' ?y")
    case True
    from sub_trailing_fence_split[OF y this] obtain w where
      "list_all isspace w" "?y = ?z @ w @ ''```''" by blast
    then show ?thesis by (intro that[of "w @ ''```''"]) blast+
  next
    case False
    with y show ?thesis by (intro that[of "[]"]) (simp_all add: sub_trailing_fence_noop)
  qed
  have "strip_fences s = ?z" by (simp add: strip_fences_def)
  with p q have "?x = p @ strip_fences s @ q" by simp
  with p(2) q(2) show ?thesis by blast
qed

text \<open>
  C8. When the trimmed text does not begin with three backticks the leading substitution
  leaves it as it is, and when it does not end with three backticks the trailing
  substitution leaves its input as it is. In every case the cleaned text is a part of the
  trimmed text: what is cut in front of it is nothing or one marker (three backticks, the
  tag \<^verbatim>\<open>json\<close> or none, whitespace), what is cut behind it is nothing or whitespace and
  three backticks; all that lies between, markers included, is kept. A text without a
  marker at either end is decoded as its trimmed form.
\<close>

theorem fence_removal_anchored:
  "(\<not> prefix ''```'' (strip s) \<longrightarrow> sub_leading_fence (strip s) = strip s)
   \<and> (\<not> suffix ''```'' (strip s) \<longrightarrow>
        sub_trailing_fence (sub_leading_fence (strip s)) = sub_leading_fence (strip s))
   \<and> (\<exists>p q. strip s = p @ strip_fences s @ q
        \<and> (p = [] \<or> (\<exists>w. list_all isspace w \<and> (p = ''```'' @ w \<or> p = ''```json'' @ w)))
        \<and> (q = [] \<or> (\<exists>w. list_all isspace w \<and> q = w @ ''```'')))
   \<and> (\<not> prefix ''```'' (strip s) \<and> \<not> suffix ''```'' (strip s) \<longrightarrow>
        strip_fences s = strip s
        \<and> response_normalizer loads s w = parse_or_report loads s (strip s) w)"
proof -
  let ?y = "sub_leading_fence (strip s)"
  have y: "strip ?y = ?y" by (simp add: strip_sub_leading_fence strip_strip)
  have 2: "sub_trailing_fence ?y = ?y" if "\<not> suffix ''```'' (strip s)"
  proof -
    have "\<not> suffix ''```'' ?y"
      using that sub_leading_fence_suffix[of "strip s"] suffix_order.trans by blast
    with y show ?thesis by (rule sub_trailing_fence_noop)
  qed
  have 4: "strip_fences s = strip s" if "\<not> prefix ''```'' (strip s)" "\<not> suffix ''```'' (strip s)"
    using that 2 by (simp add: strip_fences_def sub_leading_fence_noop)
  show ?thesis
    using 2 4 strip_fences_split[of s]
    by (simp add: sub_leading_fence_noop response_normalizer_def)
qed

theorem fence_removal_anchored_witness:
  \<open>\<not> prefix ''```'' (strip '' {"a": "```"} '')
   \<and> \<not> suffix ''```'' (strip '' {"a": "```"} '')
   \<and> strip_fences '' {"a": "```"} '' = ''{"a": "```"}''
   \<and> response_normalizer
        (\<lambda>s. if s = ''{"a": "```"}'' then Inr (PyDict [(''a'', PyStr ''```'' :: unit pyval)]) else Inl JSONDecodeError)
        '' {"a": "```"} '' \<lparr>attempts = [], logged = []\<rparr>
       = (Inr (PyDict [(''a'', PyStr ''```'')]), \<lparr>attempts = [], logged = []\<rparr>)\<close>
proof -
  have s: \<open>strip '' {"a": "```"} '' = ''{"a": "```"}''\<close>
    by (simp add: strip_def lstrip_def rstrip_def isspace_def)
  have p: \<open>\<not> prefix ''```'' ''{"a": "```"}''\<close> \<open>\<not> suffix ''```'' ''{"a": "```"}''\<close>
    by (simp_all add: suffix_to_prefix)
  show ?thesis
    using p fence_removal_anchored[of \<open>'' {"a": "```"} ''\<close> \<open>\<lambda>s. if s = ''{"a": "```"}'' then Inr (PyDict [(''a'', PyStr ''```'' :: unit pyval)]) else Inl JSONDecodeError\<close>
        "\<lparr>attempts = [], logged = []\<rparr>"]
    unfolding s by (simp add: parse_or_report_def)
qed

end
